theory Spec2Isabelle
  imports Complex_Main "HOL-Library.Multiset"
begin

section \<open>The model data of \<open>bounds_to_vars.py\<close>\<close>

text \<open>
  The transformation \<open>ConstraintToVarBoundTransform\<close> walks over the active constraints
  of a Pyomo model, recognises those of the form \<open>k * x + c1 <= c2\<close> (or
  \<open>c2 <= k * x + c1\<close>), moves the implied bound onto the variable and deactivates the
  constraint. Numbers are modelled in exact arithmetic (\<open>rat\<close>); rounding, infinities and
  NaN of Python floats are outside the model. Variables are objects with identity: a
  variable is a handle (\<open>nat\<close>) into the store \<open>vars\<close> of the model, so that two
  constraints on the same variable see each other's updates. Constraints are the model's
  constraint objects in iteration order; a constraint's identity is its position.
\<close>

datatype error = IndexError | ZeroDivisionError

text \<open>
  Modelled from the spec: the variable class of \<open>pyomo.core\<close> is not part of the source
  file. A variable has an optional lower bound, an optional upper bound and an optional
  current value, with accessors to read and set each of them and existence checks for
  the bounds.
\<close>

record VarData =
  lb :: "rat option"
  ub :: "rat option"
  var_value :: "rat option"

definition has_lb :: "VarData \<Rightarrow> bool" where
  "has_lb var = (lb var \<noteq> None)"

definition has_ub :: "VarData \<Rightarrow> bool" where
  "has_ub var = (ub var \<noteq> None)"

definition setlb :: "rat \<Rightarrow> VarData \<Rightarrow> VarData" where
  "setlb b var = var\<lparr>lb := Some b\<rparr>"

definition setub :: "rat \<Rightarrow> VarData \<Rightarrow> VarData" where
  "setub b var = var\<lparr>ub := Some b\<rparr>"

definition set_value :: "rat \<Rightarrow> VarData \<Rightarrow> VarData" where
  "set_value x var = var\<lparr>var_value := Some x\<rparr>"

text \<open>
  Modelled from the spec: the result of the linear-form decomposition service
  (\<open>generate_standard_repn\<close>, not part of the source file): whether the body is affine,
  and if so its constant term and its variables with their coefficients, as the two
  parallel sequences \<open>linear_vars\<close> and \<open>linear_coefs\<close> that the source indexes.
\<close>

record StandardRepn =
  is_linear :: bool
  linear_vars :: "nat list"
  linear_coefs :: "rat list"
  repn_constant :: rat

text \<open>
  Modelled from the spec: a constraint has a body, an optional numeric lower bound, an
  optional numeric upper bound and an active flag. The body type \<open>'e\<close> is the
  framework's expression type, which the pass only hands to the decomposition service.
\<close>

record 'e ConstraintData =
  body :: 'e
  lower :: "rat option"
  upper :: "rat option"
  active :: bool

text \<open>
  Modelled from the spec: the model owns the registry of its variables, which the
  constraints refer to by handle, and the sequence of its constraints, nested blocks
  flattened, in the order in which the framework enumerates them.
\<close>

record 'e Model =
  vars :: "nat \<Rightarrow> VarData"
  constrs :: "'e ConstraintData list"

section \<open>The pass\<close>

text \<open>Python's true division of floats raises on a zero divisor.\<close>

definition pydiv :: "rat \<Rightarrow> rat \<Rightarrow> error + rat" where
  "pydiv a b = (if b = 0 then Inl ZeroDivisionError else Inr (a / b))"

text \<open>
  Lines 58 to 67: the upper side of the constraint. The new bound is computed before the
  sign of the coefficient is looked at.
\<close>

definition upper_side :: "'e ConstraintData \<Rightarrow> rat \<Rightarrow> rat \<Rightarrow> VarData \<Rightarrow> error + VarData" where
  "upper_side constr const coef var =
     (case upper constr of
        None \<Rightarrow> Inr var
      | Some U \<Rightarrow>
          (case pydiv (U - const) coef of
             Inl e \<Rightarrow> Inl e
           | Inr newbound \<Rightarrow>
               if coef > 0 then
                 Inr (setub (case ub var of Some u \<Rightarrow> min u newbound | None \<Rightarrow> newbound) var)
               else if coef < 0 then
                 Inr (setlb (case lb var of Some l \<Rightarrow> max l newbound | None \<Rightarrow> newbound) var)
               else Inr var))"

text \<open>Lines 68 to 77: the lower side of the constraint.\<close>

definition lower_side :: "'e ConstraintData \<Rightarrow> rat \<Rightarrow> rat \<Rightarrow> VarData \<Rightarrow> error + VarData" where
  "lower_side constr const coef var =
     (case lower constr of
        None \<Rightarrow> Inr var
      | Some L \<Rightarrow>
          (case pydiv (L - const) coef of
             Inl e \<Rightarrow> Inl e
           | Inr newbound \<Rightarrow>
               if coef > 0 then
                 Inr (setlb (case lb var of Some l \<Rightarrow> max l newbound | None \<Rightarrow> newbound) var)
               else if coef < 0 then
                 Inr (setub (case ub var of Some u \<Rightarrow> min u newbound | None \<Rightarrow> newbound) var)
               else Inr var))"

text \<open>
  Lines 53 to 77: nothing is derived when \<open>isclose(coef, 0)\<close> holds. The closeness test
  \<open>isclose\<close> comes from another library and is a parameter of the model.
\<close>

definition derive_bounds ::
  "(rat \<Rightarrow> rat \<Rightarrow> bool) \<Rightarrow> 'e ConstraintData \<Rightarrow> rat \<Rightarrow> rat \<Rightarrow> VarData \<Rightarrow> error + VarData" where
  "derive_bounds isclose constr const coef var =
     (if isclose coef 0 then Inr var
      else (case upper_side constr const coef var of
              Inl e \<Rightarrow> Inl e
            | Inr var' \<Rightarrow> lower_side constr const coef var'))"

text \<open>Lines 86 to 91: the value is moved onto a violated bound, lower bound first.\<close>

definition repair_lb :: "VarData \<Rightarrow> VarData" where
  "repair_lb var =
     (if has_lb var \<and> var_value var \<noteq> None \<and> the (var_value var) < the (lb var)
      then set_value (the (lb var)) var else var)"

definition repair_ub :: "VarData \<Rightarrow> VarData" where
  "repair_ub var =
     (if has_ub var \<and> var_value var \<noteq> None \<and> the (var_value var) > the (ub var)
      then set_value (the (ub var)) var else var)"

definition repair_value :: "VarData \<Rightarrow> VarData" where
  "repair_value var = repair_ub (repair_lb var)"

definition deactivate :: "nat \<Rightarrow> 'e Model \<Rightarrow> 'e Model" where
  "deactivate i m = m\<lparr>constrs := (constrs m)[i := (constrs m ! i)\<lparr>active := False\<rparr>]\<rparr>"

definition put_var :: "nat \<Rightarrow> VarData \<Rightarrow> 'e Model \<Rightarrow> 'e Model" where
  "put_var v d m = m\<lparr>vars := (vars m)(v := d)\<rparr>"

text \<open>
  Lines 47 to 91, the body of the loop for the constraint at position \<open>i\<close>. The
  decomposition service \<open>generate_standard_repn\<close> is a parameter. A constraint that is
  not linear, or whose linear form does not have exactly one variable, is skipped.
\<close>

definition process_constr ::
  "('e \<Rightarrow> StandardRepn) \<Rightarrow> (rat \<Rightarrow> rat \<Rightarrow> bool) \<Rightarrow> nat \<Rightarrow> 'e Model \<Rightarrow> error + 'e Model" where
  "process_constr generate_standard_repn isclose i m =
     (let constr = constrs m ! i;
          repn = generate_standard_repn (body constr)
      in if is_linear repn then
           if length (linear_vars repn) = 1 then
             (let var = linear_vars repn ! 0;
                  const = repn_constant repn
              in case linear_coefs repn of
                   [] \<Rightarrow> Inl IndexError
                 | coef # _ \<Rightarrow>
                     (case derive_bounds isclose constr const coef (vars m var) of
                        Inl e \<Rightarrow> Inl e
                      | Inr d \<Rightarrow>
                          (let m1 = put_var var d m;
                               m2 = deactivate i m1
                           in Inr (put_var var (repair_value (vars m2 var)) m2))))
           else Inr m
         else Inr m)"

text \<open>
  Lines 43 to 45: the iteration over the constraints visits the positions in order and
  yields a constraint only when it is active at the moment it is reached.
\<close>

fun visit ::
  "('e \<Rightarrow> StandardRepn) \<Rightarrow> (rat \<Rightarrow> rat \<Rightarrow> bool) \<Rightarrow> nat list \<Rightarrow> 'e Model \<Rightarrow> error + 'e Model" where
  "visit generate_standard_repn isclose [] m = Inr m"
| "visit generate_standard_repn isclose (i # rest) m =
     (if active (constrs m ! i) then
        (case process_constr generate_standard_repn isclose i m of
           Inl e \<Rightarrow> Inl e
         | Inr m' \<Rightarrow> visit generate_standard_repn isclose rest m')
      else visit generate_standard_repn isclose rest m)"

definition apply_to ::
  "('e \<Rightarrow> StandardRepn) \<Rightarrow> (rat \<Rightarrow> rat \<Rightarrow> bool) \<Rightarrow> 'e Model \<Rightarrow> error + 'e Model" where
  "apply_to generate_standard_repn isclose m =
     visit generate_standard_repn isclose [0..<length (constrs m)] m"


text \<open>
  Modelled from the spec: \<open>clone\<close> of a model is not part of the source file. A model
  is an object in a store of models and is named by its handle, so that the original
  and the copy are two objects of one store. \<open>clone\<close> puts a copy of the model, with its
  own variables and constraints, at a fresh handle, returns that handle, and leaves
  every object that exists as it is.
\<close>

definition clone :: "nat \<Rightarrow> 'e Model list \<Rightarrow> 'e Model list \<times> nat" where
  "clone h store = (store @ [store ! h], length store)"

text \<open>
  The in-place entry point \<open>_apply_to\<close> on a handle replaces the model at that handle
  by the result of the pass. Lines 33 to 37, the copy-producing entry point
  \<open>_create_using\<close>: \<open>m = model.clone()\<close>, then \<open>self._apply_to(m)\<close>, then \<open>return m\<close>.
\<close>

definition apply_to_at ::
  "('e \<Rightarrow> StandardRepn) \<Rightarrow> (rat \<Rightarrow> rat \<Rightarrow> bool) \<Rightarrow> nat \<Rightarrow> 'e Model list \<Rightarrow> error + 'e Model list" where
  "apply_to_at generate_standard_repn isclose h store =
     (case apply_to generate_standard_repn isclose (store ! h) of
        Inl e \<Rightarrow> Inl e
      | Inr m' \<Rightarrow> Inr (store[h := m']))"

definition create_using ::
  "('e \<Rightarrow> StandardRepn) \<Rightarrow> (rat \<Rightarrow> rat \<Rightarrow> bool) \<Rightarrow> nat \<Rightarrow> 'e Model list
     \<Rightarrow> error + ('e Model list \<times> nat)" where
  "create_using generate_standard_repn isclose model store =
     (case clone model store of
        (store1, m) \<Rightarrow>
          (case apply_to_at generate_standard_repn isclose m store1 of
             Inl e \<Rightarrow> Inl e
           | Inr store2 \<Rightarrow> Inr (store2, m)))"

text \<open>
  Modelled from the spec: the closeness test \<open>isclose\<close> is a function of another library
  and is not part of the source file. The spec treats a coefficient as degenerate when
  it is closer to zero than a fixed absolute tolerance \<open>eps\<close>, for example \<open>1e-8\<close>.
\<close>

definition isclose_abs :: "rat \<Rightarrow> rat \<Rightarrow> rat \<Rightarrow> bool" where
  "isclose_abs eps a b = (\<bar>a - b\<bar> < eps)"

definition epsilon :: rat where
  "epsilon = 1 / 100000000"

section \<open>Notions used in the statements and proofs\<close>

text \<open>
  A candidate is a constraint whose body is linear in exactly one variable. A
  decomposition is well formed when it has as many coefficients as variables, which is
  what makes \<open>linear_coefs[0]\<close> defined. A closeness test is \<open>zero_close\<close> when it finds
  zero close to zero; the division of the pass is then never reached with a zero
  coefficient.
\<close>

definition candidate :: "('e \<Rightarrow> StandardRepn) \<Rightarrow> 'e ConstraintData \<Rightarrow> bool" where
  "candidate gsr c = (is_linear (gsr (body c)) \<and> length (linear_vars (gsr (body c))) = 1)"

definition wf_constr :: "('e \<Rightarrow> StandardRepn) \<Rightarrow> 'e ConstraintData \<Rightarrow> bool" where
  "wf_constr gsr c = (length (linear_coefs (gsr (body c))) = length (linear_vars (gsr (body c))))"

definition wf_model :: "('e \<Rightarrow> StandardRepn) \<Rightarrow> 'e Model \<Rightarrow> bool" where
  "wf_model gsr m = list_all (wf_constr gsr) (constrs m)"

definition zero_close :: "(rat \<Rightarrow> rat \<Rightarrow> bool) \<Rightarrow> bool" where
  "zero_close isclose = isclose 0 0"

definition processed :: "('e \<Rightarrow> StandardRepn) \<Rightarrow> 'e ConstraintData \<Rightarrow> bool" where
  "processed gsr c = (active c \<and> candidate gsr c)"

text \<open>
  Bounds are optional, and no bound is the loosest bound: a lower bound is no looser
  than before when it is set and at least as large, an upper bound when it is set and
  at most as large.
\<close>

definition lb_no_looser :: "rat option \<Rightarrow> rat option \<Rightarrow> bool" where
  "lb_no_looser before after =
     (case before of None \<Rightarrow> True
      | Some l \<Rightarrow> (case after of None \<Rightarrow> False | Some l' \<Rightarrow> l \<le> l'))"

definition ub_no_looser :: "rat option \<Rightarrow> rat option \<Rightarrow> bool" where
  "ub_no_looser before after =
     (case before of None \<Rightarrow> True
      | Some u \<Rightarrow> (case after of None \<Rightarrow> False | Some u' \<Rightarrow> u' \<le> u))"

text \<open>
  The value of a variable is within its bounds, as far as bounds that cross allow: it
  is at most the upper bound, and at least the lower bound unless the lower bound lies
  above the upper bound.
\<close>

definition within_bounds :: "VarData \<Rightarrow> bool" where
  "within_bounds d =
     (case var_value d of None \<Rightarrow> True
      | Some x \<Rightarrow>
          (case ub d of None \<Rightarrow> True | Some u \<Rightarrow> x \<le> u) \<and>
          (case lb d of None \<Rightarrow> True
           | Some l \<Rightarrow> (case ub d of None \<Rightarrow> l \<le> x | Some u \<Rightarrow> l \<le> u \<longrightarrow> l \<le> x)))"

section \<open>Auxiliary functions of the proofs\<close>

text \<open>
  The bound that one constraint implies on its variable, the meet of an implied bound
  with an existing one, and the step of the pass as a total function. They describe
  the results of the definitions above and are related to them by the lemmas below.
\<close>

definition tighten_ub :: "rat option \<Rightarrow> rat \<Rightarrow> rat option" where
  "tighten_ub old nb = Some (case old of Some u \<Rightarrow> min u nb | None \<Rightarrow> nb)"

definition tighten_lb :: "rat option \<Rightarrow> rat \<Rightarrow> rat option" where
  "tighten_lb old nb = Some (case old of Some l \<Rightarrow> max l nb | None \<Rightarrow> nb)"

definition implied_lb :: "'e ConstraintData \<Rightarrow> rat \<Rightarrow> rat \<Rightarrow> rat option" where
  "implied_lb c const coef =
     (if coef > 0 then map_option (\<lambda>L. (L - const) / coef) (lower c)
      else if coef < 0 then map_option (\<lambda>U. (U - const) / coef) (upper c)
      else None)"

definition implied_ub :: "'e ConstraintData \<Rightarrow> rat \<Rightarrow> rat \<Rightarrow> rat option" where
  "implied_ub c const coef =
     (if coef > 0 then map_option (\<lambda>U. (U - const) / coef) (upper c)
      else if coef < 0 then map_option (\<lambda>L. (L - const) / coef) (lower c)
      else None)"

definition meet_lb :: "rat option \<Rightarrow> rat option \<Rightarrow> rat option" where
  "meet_lb new old = (case new of None \<Rightarrow> old | Some nb \<Rightarrow> tighten_lb old nb)"

definition meet_ub :: "rat option \<Rightarrow> rat option \<Rightarrow> rat option" where
  "meet_ub new old = (case new of None \<Rightarrow> old | Some nb \<Rightarrow> tighten_ub old nb)"

definition derived :: "(rat \<Rightarrow> rat \<Rightarrow> bool) \<Rightarrow> 'e ConstraintData \<Rightarrow> rat \<Rightarrow> rat \<Rightarrow> VarData \<Rightarrow> VarData" where
  "derived isclose c const coef var =
     (if isclose coef 0 then var
      else var\<lparr>lb := meet_lb (implied_lb c const coef) (lb var),
               ub := meet_ub (implied_ub c const coef) (ub var)\<rparr>)"

definition step :: "('e \<Rightarrow> StandardRepn) \<Rightarrow> (rat \<Rightarrow> rat \<Rightarrow> bool) \<Rightarrow> nat \<Rightarrow> 'e Model \<Rightarrow> 'e Model" where
  "step gsr isclose i m =
     (let c = constrs m ! i; r = gsr (body c)
      in if candidate gsr c then
           m\<lparr>vars := (vars m)(hd (linear_vars r) :=
                  repair_value (derived isclose c (repn_constant r) (hd (linear_coefs r))
                                  (vars m (hd (linear_vars r))))),
             constrs := (constrs m)[i := c\<lparr>active := False\<rparr>]\<rparr>
         else m)"

definition pstep :: "('e \<Rightarrow> StandardRepn) \<Rightarrow> (rat \<Rightarrow> rat \<Rightarrow> bool) \<Rightarrow> nat \<Rightarrow> 'e Model \<Rightarrow> 'e Model" where
  "pstep gsr isclose i m = (if active (constrs m ! i) then step gsr isclose i m else m)"

definition deact :: "('e \<Rightarrow> StandardRepn) \<Rightarrow> 'e ConstraintData \<Rightarrow> 'e ConstraintData" where
  "deact gsr c = (if candidate gsr c then c\<lparr>active := False\<rparr> else c)"

definition target :: "('e \<Rightarrow> StandardRepn) \<Rightarrow> 'e ConstraintData \<Rightarrow> nat" where
  "target gsr c = hd (linear_vars (gsr (body c)))"

definition folded :: "('e \<Rightarrow> StandardRepn) \<Rightarrow> (rat \<Rightarrow> rat \<Rightarrow> bool) \<Rightarrow> 'e ConstraintData \<Rightarrow> VarData \<Rightarrow> VarData" where
  "folded gsr isclose c d =
     repair_value (derived isclose c (repn_constant (gsr (body c))) (hd (linear_coefs (gsr (body c)))) d)"

definition bounds_of :: "'e Model \<Rightarrow> nat \<Rightarrow> rat option \<times> rat option" where
  "bounds_of m v = (lb (vars m v), ub (vars m v))"

definition narrow ::
  "('e \<Rightarrow> StandardRepn) \<Rightarrow> (rat \<Rightarrow> rat \<Rightarrow> bool) \<Rightarrow> 'e ConstraintData
     \<Rightarrow> rat option \<times> rat option \<Rightarrow> rat option \<times> rat option" where
  "narrow gsr isclose c p =
     (let const = repn_constant (gsr (body c)); coef = hd (linear_coefs (gsr (body c)))
      in if isclose coef 0 then p
         else (meet_lb (implied_lb c const coef) (fst p), meet_ub (implied_ub c const coef) (snd p)))"

definition tighten ::
  "('e \<Rightarrow> StandardRepn) \<Rightarrow> (rat \<Rightarrow> rat \<Rightarrow> bool) \<Rightarrow> 'e ConstraintData
     \<Rightarrow> (nat \<Rightarrow> rat option \<times> rat option) \<Rightarrow> (nat \<Rightarrow> rat option \<times> rat option)" where
  "tighten gsr isclose c B =
     (if processed gsr c then B(target gsr c := narrow gsr isclose c (B (target gsr c))) else B)"

section \<open>Example models\<close>

text \<open>
  In the examples the body of a constraint is its own decomposition, and the
  decomposition service is the identity. \<open>scenario1\<close> is \<open>2 x + 1 \<le> 5\<close> on a free
  variable, \<open>scenario3\<close> the same constraint on a variable with upper bound \<open>1\<close>,
  \<open>scenario4\<close> is \<open>0 x + 5 \<le> 10\<close>, \<open>scenario5\<close> is \<open>x \<le> 2\<close> on a variable with value
  \<open>3\<close>, \<open>scenario6\<close> is \<open>x + y \<le> 4\<close>. \<open>two_bounds\<close> is \<open>x \<le> 3\<close> and \<open>2 x \<le> 4\<close>.
  \<open>contradictory\<close> has \<open>x \<le> 1\<close> and \<open>2 \<le> x\<close> on a variable with value \<open>0\<close>, and a second
  variable with lower bound \<open>0\<close> and value \<open>-1\<close> that no constraint mentions. \<open>crossed\<close>
  has \<open>0 x + 5 \<le> 10\<close> on a variable with lower bound \<open>2\<close>, upper bound \<open>1\<close> and value \<open>0\<close>.
\<close>

definition free_var :: VarData where
  "free_var = \<lparr>lb = None, ub = None, var_value = None\<rparr>"

definition linear_body :: "nat \<Rightarrow> rat \<Rightarrow> rat \<Rightarrow> StandardRepn" where
  "linear_body x coef const =
     \<lparr>is_linear = True, linear_vars = [x], linear_coefs = [coef], repn_constant = const\<rparr>"

definition scenario1 :: "StandardRepn Model" where
  "scenario1 = \<lparr>vars = (\<lambda>_. free_var),
     constrs = [\<lparr>body = linear_body 0 2 1, lower = None, upper = Some 5, active = True\<rparr>]\<rparr>"

definition scenario3 :: "StandardRepn Model" where
  "scenario3 = \<lparr>vars = (\<lambda>_. free_var)(0 := \<lparr>lb = None, ub = Some 1, var_value = None\<rparr>),
     constrs = [\<lparr>body = linear_body 0 2 1, lower = None, upper = Some 5, active = True\<rparr>]\<rparr>"

definition scenario4 :: "StandardRepn Model" where
  "scenario4 = \<lparr>vars = (\<lambda>_. free_var),
     constrs = [\<lparr>body = linear_body 0 0 5, lower = None, upper = Some 10, active = True\<rparr>]\<rparr>"

definition scenario5 :: "StandardRepn Model" where
  "scenario5 = \<lparr>vars = (\<lambda>_. free_var)(0 := \<lparr>lb = None, ub = None, var_value = Some 3\<rparr>),
     constrs = [\<lparr>body = linear_body 0 1 0, lower = None, upper = Some 2, active = True\<rparr>]\<rparr>"

definition scenario6 :: "StandardRepn Model" where
  "scenario6 = \<lparr>vars = (\<lambda>_. free_var),
     constrs = [\<lparr>body = \<lparr>is_linear = True, linear_vars = [0, 1], linear_coefs = [1, 1],
                              repn_constant = 0\<rparr>,
                 lower = None, upper = Some 4, active = True\<rparr>]\<rparr>"

definition two_bounds :: "StandardRepn ConstraintData list" where
  "two_bounds = [\<lparr>body = linear_body 0 1 0, lower = None, upper = Some 3, active = True\<rparr>,
                 \<lparr>body = linear_body 0 2 0, lower = None, upper = Some 4, active = True\<rparr>]"

definition contradictory :: "StandardRepn Model" where
  "contradictory = \<lparr>vars = (\<lambda>_. free_var)
       (0 := \<lparr>lb = None, ub = None, var_value = Some 0\<rparr>,
        1 := \<lparr>lb = Some 0, ub = None, var_value = Some (- 1)\<rparr>),
     constrs = [\<lparr>body = linear_body 0 1 0, lower = None, upper = Some 1, active = True\<rparr>,
                \<lparr>body = linear_body 0 1 0, lower = Some 2, upper = None, active = True\<rparr>]\<rparr>"

definition crossed :: "StandardRepn Model" where
  "crossed = \<lparr>vars = (\<lambda>_. free_var)(0 := \<lparr>lb = Some 2, ub = Some 1, var_value = Some 0\<rparr>),
     constrs = [\<lparr>body = linear_body 0 0 5, lower = None, upper = Some 10, active = True\<rparr>]\<rparr>"

section \<open>One constraint\<close>

lemmas eval_defs = apply_to_def process_constr_def derive_bounds_def upper_side_def lower_side_def
  pydiv_def setlb_def setub_def set_value_def repair_value_def repair_lb_def repair_ub_def has_lb_def has_ub_def
  deactivate_def put_var_def Let_def isclose_abs_def epsilon_def linear_body_def free_var_def

lemma upper_side_pos:
  "coef > 0 \<Longrightarrow> upper_side c const coef var =
     Inr (case upper c of None \<Rightarrow> var | Some U \<Rightarrow> var\<lparr>ub := tighten_ub (ub var) ((U - const) / coef)\<rparr>)"
  by (simp add: upper_side_def pydiv_def setub_def tighten_ub_def split: option.splits)

lemma upper_side_neg:
  "coef < 0 \<Longrightarrow> upper_side c const coef var =
     Inr (case upper c of None \<Rightarrow> var | Some U \<Rightarrow> var\<lparr>lb := tighten_lb (lb var) ((U - const) / coef)\<rparr>)"
  by (simp add: upper_side_def pydiv_def setlb_def tighten_lb_def split: option.splits)

lemma lower_side_pos:
  "coef > 0 \<Longrightarrow> lower_side c const coef var =
     Inr (case lower c of None \<Rightarrow> var | Some L \<Rightarrow> var\<lparr>lb := tighten_lb (lb var) ((L - const) / coef)\<rparr>)"
  by (simp add: lower_side_def pydiv_def setlb_def tighten_lb_def split: option.splits)

lemma lower_side_neg:
  "coef < 0 \<Longrightarrow> lower_side c const coef var =
     Inr (case lower c of None \<Rightarrow> var | Some L \<Rightarrow> var\<lparr>ub := tighten_ub (ub var) ((L - const) / coef)\<rparr>)"
  by (simp add: lower_side_def pydiv_def setub_def tighten_ub_def split: option.splits)

lemma derive_bounds_nonzero:
  assumes "coef \<noteq> 0" "\<not> isclose coef 0"
  shows "derive_bounds isclose c const coef var =
     Inr (var\<lparr>lb := meet_lb (implied_lb c const coef) (lb var),
              ub := meet_ub (implied_ub c const coef) (ub var)\<rparr>)"
proof (cases "coef > 0")
  case True
  then show ?thesis using assms
    by (simp add: derive_bounds_def upper_side_pos lower_side_pos implied_lb_def implied_ub_def
        meet_lb_def meet_ub_def split: option.splits)
next
  case False
  with assms have "coef < 0" by simp
  then show ?thesis using assms
    by (simp add: derive_bounds_def upper_side_neg lower_side_neg implied_lb_def implied_ub_def
        meet_lb_def meet_ub_def split: option.splits)
qed

lemma derive_bounds_close:
  "isclose coef 0 \<Longrightarrow> derive_bounds isclose c const coef var = Inr var"
  by (simp add: derive_bounds_def)

lemma derive_bounds_total:
  assumes "zero_close isclose"
  shows "derive_bounds isclose c const coef var = Inr (derived isclose c const coef var)"
proof (cases "isclose coef 0")
  case True
  then show ?thesis by (simp add: derive_bounds_close derived_def)
next
  case False
  with assms have "coef \<noteq> 0" by (auto simp: zero_close_def)
  with False show ?thesis by (simp add: derive_bounds_nonzero derived_def)
qed

lemma zero_close_abs: "0 < eps \<Longrightarrow> zero_close (isclose_abs eps)"
  by (simp add: zero_close_def isclose_abs_def)

lemma process_constr_skip:
  "\<not> candidate gsr (constrs m ! i) \<Longrightarrow> process_constr gsr isclose i m = Inr m"
  by (auto simp: process_constr_def candidate_def Let_def)

lemma process_constr_candidate:
  assumes "candidate gsr (constrs m ! i)" "wf_constr gsr (constrs m ! i)" "zero_close isclose"
  shows "\<exists>x coef. linear_vars (gsr (body (constrs m ! i))) = [x]
           \<and> linear_coefs (gsr (body (constrs m ! i))) = [coef]
           \<and> process_constr gsr isclose i m =
             Inr (m\<lparr>vars := (vars m)(x := repair_value
                       (derived isclose (constrs m ! i) (repn_constant (gsr (body (constrs m ! i)))) coef (vars m x))),
                    constrs := (constrs m)[i := (constrs m ! i)\<lparr>active := False\<rparr>]\<rparr>)"
proof -
  let ?r = "gsr (body (constrs m ! i))"
  from assms(1) obtain x where x: "linear_vars ?r = [x]"
    by (auto simp: candidate_def length_Suc_conv)
  with assms(2) obtain coef where c: "linear_coefs ?r = [coef]"
    by (auto simp: wf_constr_def length_Suc_conv)
  show ?thesis using assms(1) x c
    by (simp add: process_constr_def candidate_def Let_def put_var_def deactivate_def
        derive_bounds_total[OF assms(3)])
qed

lemma process_constr_single:
  assumes "is_linear (gsr (body (constrs m ! i)))"
    and "linear_vars (gsr (body (constrs m ! i))) = [x]"
    and "linear_coefs (gsr (body (constrs m ! i))) = coef # cs"
    and "derive_bounds isclose (constrs m ! i) (repn_constant (gsr (body (constrs m ! i)))) coef (vars m x) = Inr d"
  shows "process_constr gsr isclose i m =
     Inr (m\<lparr>vars := (vars m)(x := repair_value d),
            constrs := (constrs m)[i := (constrs m ! i)\<lparr>active := False\<rparr>]\<rparr>)"
  using assms by (simp add: process_constr_def Let_def put_var_def deactivate_def)

lemma candidate_deactivated [simp]: "candidate gsr (c\<lparr>active := b\<rparr>) = candidate gsr c"
  by (simp add: candidate_def)

lemma wf_constr_deactivated [simp]: "wf_constr gsr (c\<lparr>active := b\<rparr>) = wf_constr gsr c"
  by (simp add: wf_constr_def)

lemma process_constr_step:
  assumes "wf_constr gsr (constrs m ! i)" "zero_close isclose"
  shows "process_constr gsr isclose i m = Inr (step gsr isclose i m)"
proof (cases "candidate gsr (constrs m ! i)")
  case True
  from process_constr_candidate[OF True assms] show ?thesis
    using True by (auto simp: step_def Let_def)
next
  case False
  then show ?thesis by (simp add: process_constr_skip step_def Let_def)
qed

lemma process_constr_no_zdiv:
  "zero_close isclose \<Longrightarrow> process_constr gsr isclose i m \<noteq> Inl ZeroDivisionError"
  by (auto simp: process_constr_def Let_def derive_bounds_total split: list.splits)

section \<open>The pass as a fold\<close>

lemma constrs_pstep:
  "constrs (pstep gsr isclose i m) = (constrs m)[i := deact gsr (constrs m ! i)]"
proof (cases "active (constrs m ! i)")
  case True
  then show ?thesis by (simp add: pstep_def step_def deact_def Let_def)
next
  case False
  then have "deact gsr (constrs m ! i) = constrs m ! i" by (simp add: deact_def)
  with False show ?thesis by (simp add: pstep_def)
qed

lemma length_constrs_pstep [simp]:
  "length (constrs (pstep gsr isclose i m)) = length (constrs m)"
  by (simp add: constrs_pstep)

lemma wf_constr_deact [simp]: "wf_constr gsr (deact gsr c) = wf_constr gsr c"
  by (simp add: deact_def)

lemma wf_model_pstep:
  assumes "wf_model gsr m"
  shows "wf_model gsr (pstep gsr isclose i m)"
proof (cases "i < length (constrs m)")
  case True
  have "wf_constr gsr c" if "c \<in> set ((constrs m)[i := deact gsr (constrs m ! i)])" for c
  proof -
    from that have "c = deact gsr (constrs m ! i) \<or> c \<in> set (constrs m)"
      by (auto dest: set_update_subset_insert[THEN subsetD])
    moreover have "wf_constr gsr (constrs m ! i)"
      using assms True by (simp add: wf_model_def list_all_length)
    ultimately show ?thesis using assms by (auto simp: wf_model_def list_all_iff)
  qed
  then show ?thesis by (simp add: wf_model_def list_all_iff constrs_pstep)
next
  case False
  then show ?thesis using assms by (simp add: wf_model_def constrs_pstep list_update_beyond)
qed

lemma wf_model_fold:
  "wf_model gsr m \<Longrightarrow> wf_model gsr (fold (pstep gsr isclose) is m)"
  by (induction "is" arbitrary: m) (simp_all add: wf_model_pstep)

lemma visit_fold:
  assumes "zero_close isclose"
  shows "wf_model gsr m \<Longrightarrow> \<forall>i\<in>set is. i < length (constrs m)
    \<Longrightarrow> visit gsr isclose is m = Inr (fold (pstep gsr isclose) is m)"
proof (induction "is" arbitrary: m)
  case Nil
  then show ?case by simp
next
  case (Cons i rest)
  from Cons.prems have wfi: "wf_constr gsr (constrs m ! i)"
    by (simp add: wf_model_def list_all_length)
  have wf': "wf_model gsr (pstep gsr isclose i m)"
    using Cons.prems(1) by (rule wf_model_pstep)
  have rng: "\<forall>j\<in>set rest. j < length (constrs (pstep gsr isclose i m))"
    using Cons.prems(2) by simp
  show ?case
  proof (cases "active (constrs m ! i)")
    case True
    then have "pstep gsr isclose i m = step gsr isclose i m" by (simp add: pstep_def)
    with Cons.IH[OF wf' rng] True show ?thesis
      by (simp add: process_constr_step[OF wfi assms])
  next
    case False
    then have "pstep gsr isclose i m = m" by (simp add: pstep_def)
    with Cons.IH[OF wf' rng] False show ?thesis by simp
  qed
qed

lemma apply_to_fold:
  assumes "zero_close isclose" "wf_model gsr m"
  shows "apply_to gsr isclose m = Inr (fold (pstep gsr isclose) [0..<length (constrs m)] m)"
  unfolding apply_to_def using visit_fold[OF assms] by simp

lemma visit_no_zdiv:
  "zero_close isclose \<Longrightarrow> visit gsr isclose is m \<noteq> Inl ZeroDivisionError"
proof (induction "is" arbitrary: m)
  case Nil
  then show ?case by simp
next
  case (Cons i rest)
  then show ?case
    using process_constr_no_zdiv[of isclose gsr i m]
    by (auto split: sum.splits)
qed

lemma deact_idem [simp]: "deact gsr (deact gsr c) = deact gsr c"
  by (simp add: deact_def)

lemma constrs_fold_nth:
  "j < length (constrs m) \<Longrightarrow>
   constrs (fold (pstep gsr isclose) is m) ! j =
     (if j \<in> set is then deact gsr (constrs m ! j) else constrs m ! j)"
proof (induction "is" arbitrary: m)
  case Nil
  then show ?case by simp
next
  case (Cons i rest)
  have "j < length (constrs (pstep gsr isclose i m))" using Cons.prems by simp
  from Cons.IH[OF this] show ?case using Cons.prems
    by (cases "j = i") (auto simp: constrs_pstep)
qed

lemma length_constrs_fold [simp]:
  "length (constrs (fold (pstep gsr isclose) is m)) = length (constrs m)"
  by (induction "is" arbitrary: m) simp_all

lemma constrs_pass:
  "constrs (fold (pstep gsr isclose) [0..<length (constrs m)] m) = map (deact gsr) (constrs m)"
  by (rule nth_equalityI) (simp_all add: constrs_fold_nth)

lemma nth_pstep_other:
  "j \<noteq> i \<Longrightarrow> constrs (pstep gsr isclose i m) ! j = constrs m ! j"
  by (simp add: constrs_pstep)

section \<open>Variables under the pass\<close>

lemma vars_pstep:
  "vars (pstep gsr isclose i m) v =
     (if processed gsr (constrs m ! i) \<and> v = target gsr (constrs m ! i)
      then folded gsr isclose (constrs m ! i) (vars m v) else vars m v)"
  by (simp add: pstep_def step_def Let_def processed_def target_def folded_def)

lemma repair_value_bounds [simp]:
  "lb (repair_value d) = lb d" "ub (repair_value d) = ub d"
  by (auto simp: repair_value_def repair_lb_def repair_ub_def has_lb_def has_ub_def set_value_def split: option.splits)

lemma lb_no_looser_refl [simp]: "lb_no_looser a a"
  by (simp add: lb_no_looser_def split: option.splits)

lemma ub_no_looser_refl [simp]: "ub_no_looser a a"
  by (simp add: ub_no_looser_def split: option.splits)

lemma lb_no_looser_trans: "lb_no_looser a b \<Longrightarrow> lb_no_looser b c \<Longrightarrow> lb_no_looser a c"
  by (auto simp: lb_no_looser_def split: option.splits)

lemma ub_no_looser_trans: "ub_no_looser a b \<Longrightarrow> ub_no_looser b c \<Longrightarrow> ub_no_looser a c"
  by (auto simp: ub_no_looser_def split: option.splits)

lemma meet_lb_no_looser [simp]: "lb_no_looser old (meet_lb new old)"
  by (auto simp: lb_no_looser_def meet_lb_def tighten_lb_def split: option.splits)

lemma meet_ub_no_looser [simp]: "ub_no_looser old (meet_ub new old)"
  by (auto simp: ub_no_looser_def meet_ub_def tighten_ub_def split: option.splits)

lemma folded_no_looser:
  "lb_no_looser (lb d) (lb (folded gsr isclose c d))"
  "ub_no_looser (ub d) (ub (folded gsr isclose c d))"
  by (simp_all add: folded_def derived_def)

lemma pstep_no_looser:
  "lb_no_looser (lb (vars m v)) (lb (vars (pstep gsr isclose i m) v))"
  "ub_no_looser (ub (vars m v)) (ub (vars (pstep gsr isclose i m) v))"
  by (simp_all add: vars_pstep folded_no_looser)

lemma fold_no_looser:
  "lb_no_looser (lb (vars m v)) (lb (vars (fold (pstep gsr isclose) is m) v)) \<and>
   ub_no_looser (ub (vars m v)) (ub (vars (fold (pstep gsr isclose) is m) v))"
proof (induction "is" arbitrary: m)
  case Nil
  then show ?case by simp
next
  case (Cons i rest)
  show ?case
    using Cons.IH[of "pstep gsr isclose i m"] pstep_no_looser[of m v gsr isclose i]
    by (auto intro: lb_no_looser_trans ub_no_looser_trans)
qed

lemma within_bounds_repair: "within_bounds (repair_value d)"
  by (auto simp: within_bounds_def repair_value_def repair_lb_def repair_ub_def has_lb_def has_ub_def set_value_def
      split: option.splits)

lemma within_bounds_folded: "within_bounds (folded gsr isclose c d)"
  by (simp add: folded_def within_bounds_repair)

lemma within_boundsD:
  assumes "within_bounds d" and "var_value d = Some x"
  shows "ub d = Some u \<Longrightarrow> x \<le> u"
    and "lb d = Some l \<Longrightarrow> ub d = None \<or> (\<exists>u. ub d = Some u \<and> l \<le> u) \<Longrightarrow> l \<le> x"
  using assms by (auto simp: within_bounds_def split: option.splits)

lemma single_var_processed:
  "(active c \<and> is_linear (gsr (body c)) \<and> linear_vars (gsr (body c)) = [v])
     = (processed gsr c \<and> target gsr c = v)"
  by (cases "linear_vars (gsr (body c))") (auto simp: processed_def candidate_def target_def)

lemma fold_untouched:
  "\<forall>i\<in>set is. \<not> (processed gsr (constrs m ! i) \<and> target gsr (constrs m ! i) = v)
   \<Longrightarrow> distinct is
   \<Longrightarrow> vars (fold (pstep gsr isclose) is m) v = vars m v"
proof (induction "is" arbitrary: m)
  case Nil
  then show ?case by simp
next
  case (Cons i rest)
  have "\<forall>j\<in>set rest. constrs (pstep gsr isclose i m) ! j = constrs m ! j"
    using Cons.prems(2) by (auto intro!: nth_pstep_other)
  with Cons.prems have
    "\<forall>j\<in>set rest. \<not> (processed gsr (constrs (pstep gsr isclose i m) ! j)
        \<and> target gsr (constrs (pstep gsr isclose i m) ! j) = v)"
    by simp
  from Cons.IH[OF this] Cons.prems show ?case
    by (auto simp: vars_pstep)
qed

lemma fold_within_keeps:
  "within_bounds (vars m v) \<Longrightarrow> within_bounds (vars (fold (pstep gsr isclose) is m) v)"
proof (induction "is" arbitrary: m)
  case Nil
  then show ?case by simp
next
  case (Cons i rest)
  have "within_bounds (vars (pstep gsr isclose i m) v)"
    using Cons.prems by (simp add: vars_pstep within_bounds_folded)
  from Cons.IH[OF this] show ?case by simp
qed

lemma fold_touched:
  "\<exists>i\<in>set is. processed gsr (constrs m ! i) \<and> target gsr (constrs m ! i) = v
   \<Longrightarrow> distinct is
   \<Longrightarrow> within_bounds (vars (fold (pstep gsr isclose) is m) v)"
proof (induction "is" arbitrary: m)
  case Nil
  then show ?case by simp
next
  case (Cons i rest)
  show ?case
  proof (cases "processed gsr (constrs m ! i) \<and> target gsr (constrs m ! i) = v")
    case True
    then have "within_bounds (vars (pstep gsr isclose i m) v)"
      by (simp add: vars_pstep within_bounds_folded)
    then show ?thesis using fold_within_keeps by simp
  next
    case False
    with Cons.prems(1) obtain j where j: "j \<in> set rest"
      "processed gsr (constrs m ! j)" "target gsr (constrs m ! j) = v"
      by auto
    with Cons.prems(2) have "constrs (pstep gsr isclose i m) ! j = constrs m ! j"
      by (auto intro!: nth_pstep_other)
    with j have "\<exists>j\<in>set rest. processed gsr (constrs (pstep gsr isclose i m) ! j)
        \<and> target gsr (constrs (pstep gsr isclose i m) ! j) = v"
      by (intro bexI[of _ j]) simp_all
    from Cons.IH[OF this] Cons.prems(2) show ?thesis by simp
  qed
qed

lemma scenario5_result:
  "apply_to id (isclose_abs epsilon) scenario5 =
   Inr \<lparr>vars = (\<lambda>_. free_var)(0 := \<lparr>lb = None, ub = Some 2, var_value = Some 2\<rparr>),
     constrs = [\<lparr>body = linear_body 0 1 0, lower = None, upper = Some 2, active = False\<rparr>]\<rparr>"
  by (simp add: eval_defs scenario5_def)

section \<open>Bounds do not depend on the order\<close>

lemma meet_lb_commute: "meet_lb a (meet_lb b x) = meet_lb b (meet_lb a x)"
  by (auto simp: meet_lb_def tighten_lb_def max.commute max.left_commute split: option.splits)

lemma meet_ub_commute: "meet_ub a (meet_ub b x) = meet_ub b (meet_ub a x)"
  by (auto simp: meet_ub_def tighten_ub_def min.commute min.left_commute split: option.splits)

lemma narrow_commute:
  "narrow gsr isclose c1 (narrow gsr isclose c2 p) = narrow gsr isclose c2 (narrow gsr isclose c1 p)"
  by (simp add: narrow_def Let_def meet_lb_commute meet_ub_commute)

lemma tighten_commute:
  "tighten gsr isclose c1 \<circ> tighten gsr isclose c2 = tighten gsr isclose c2 \<circ> tighten gsr isclose c1"
proof (rule ext)
  fix B
  show "(tighten gsr isclose c1 \<circ> tighten gsr isclose c2) B
      = (tighten gsr isclose c2 \<circ> tighten gsr isclose c1) B"
  proof (cases "target gsr c1 = target gsr c2")
    case True
    then show ?thesis by (simp add: tighten_def narrow_commute)
  next
    case False
    then show ?thesis by (auto simp: tighten_def fun_upd_twist)
  qed
qed

lemma bounds_folded:
  "(lb (folded gsr isclose c d), ub (folded gsr isclose c d)) = narrow gsr isclose c (lb d, ub d)"
  by (simp add: folded_def derived_def narrow_def Let_def)

lemma bounds_of_pstep:
  "bounds_of (pstep gsr isclose i m) = tighten gsr isclose (constrs m ! i) (bounds_of m)"
  by (rule ext) (simp add: bounds_of_def vars_pstep tighten_def bounds_folded)

lemma bounds_of_fold:
  "distinct is \<Longrightarrow>
   bounds_of (fold (pstep gsr isclose) is m) =
     fold (tighten gsr isclose) (map ((!) (constrs m)) is) (bounds_of m)"
proof (induction "is" arbitrary: m)
  case Nil
  then show ?case by simp
next
  case (Cons i rest)
  have same: "map ((!) (constrs (pstep gsr isclose i m))) rest = map ((!) (constrs m)) rest"
    using Cons.prems by (auto intro!: nth_pstep_other)
  from Cons.prems have "distinct rest" by simp
  from Cons.IH[OF this, of "pstep gsr isclose i m"] show ?case
    by (simp add: same bounds_of_pstep)
qed

lemma bounds_of_pass:
  "bounds_of (fold (pstep gsr isclose) [0..<length (constrs m)] m) =
     fold (tighten gsr isclose) (constrs m) (bounds_of m)"
  using bounds_of_fold[of "[0..<length (constrs m)]" gsr isclose m] by (simp add: map_nth)

lemma bounds_of_pass_permuted:
  assumes "mset (constrs m1) = mset (constrs m2)" "bounds_of m1 = bounds_of m2"
  shows "bounds_of (fold (pstep gsr isclose) [0..<length (constrs m1)] m1) =
         bounds_of (fold (pstep gsr isclose) [0..<length (constrs m2)] m2)"
proof -
  have "fold (tighten gsr isclose) (constrs m1) = fold (tighten gsr isclose) (constrs m2)"
    by (rule fold_multiset_equiv) (simp_all add: tighten_commute assms(1))
  then show ?thesis by (simp add: bounds_of_pass assms(2))
qed

section \<open>A second pass changes nothing\<close>

lemma pstep_id:
  "\<not> processed gsr (constrs m ! i) \<Longrightarrow> pstep gsr isclose i m = m"
  by (auto simp: pstep_def step_def processed_def Let_def)

lemma fold_pstep_id:
  "\<forall>i\<in>set is. \<not> processed gsr (constrs m ! i) \<Longrightarrow> fold (pstep gsr isclose) is m = m"
  by (induction "is") (simp_all add: pstep_id)

lemma not_processed_deact [simp]: "\<not> processed gsr (deact gsr c)"
  by (simp add: processed_def deact_def)

lemma pass_idem:
  assumes "m' = fold (pstep gsr isclose) [0..<length (constrs m)] m"
  shows "fold (pstep gsr isclose) [0..<length (constrs m')] m' = m'"
proof (rule fold_pstep_id, rule ballI)
  fix i assume "i \<in> set [0..<length (constrs m')]"
  then have "i < length (constrs m)" by (simp add: assms)
  then have "constrs m' ! i = deact gsr (constrs m ! i)"
    by (simp add: assms constrs_pass)
  then show "\<not> processed gsr (constrs m' ! i)" by simp
qed

section \<open>The properties of the pass\<close>

text \<open>
  C1. When the loop body runs on a constraint whose body is linear in exactly one
  variable \<open>x\<close> with a coefficient \<open>coef\<close> that is not treated as degenerate, it returns,
  and: if the constraint has an upper bound \<open>U\<close>, then for \<open>coef > 0\<close> the upper bound of
  \<open>x\<close> becomes the minimum of the existing upper bound and \<open>(U - const) / coef\<close> (or
  \<open>(U - const) / coef\<close> if there was none), and for \<open>coef < 0\<close> the lower bound of \<open>x\<close>
  becomes the maximum of the existing lower bound and \<open>(U - const) / coef\<close> (or that
  number if there was none); if the constraint has a lower bound \<open>L\<close>, then for
  \<open>coef > 0\<close> the lower bound becomes the maximum with \<open>(L - const) / coef\<close> and for
  \<open>coef < 0\<close> the upper bound becomes the minimum with \<open>(L - const) / coef\<close>.
\<close>

theorem bound_derivation:
  assumes "is_linear (gsr (body (constrs m ! i)))"
    and "linear_vars (gsr (body (constrs m ! i))) = [x]"
    and "linear_coefs (gsr (body (constrs m ! i))) = [coef]"
    and "repn_constant (gsr (body (constrs m ! i))) = const"
    and "\<not> isclose coef 0"
    and "coef \<noteq> 0"
  shows "\<exists>m'. process_constr gsr isclose i m = Inr m' \<and>
    (\<forall>U. upper (constrs m ! i) = Some U \<longrightarrow>
       (coef > 0 \<longrightarrow> ub (vars m' x) =
          Some (case ub (vars m x) of Some u \<Rightarrow> min u ((U - const) / coef) | None \<Rightarrow> (U - const) / coef)) \<and>
       (coef < 0 \<longrightarrow> lb (vars m' x) =
          Some (case lb (vars m x) of Some l \<Rightarrow> max l ((U - const) / coef) | None \<Rightarrow> (U - const) / coef))) \<and>
    (\<forall>L. lower (constrs m ! i) = Some L \<longrightarrow>
       (coef > 0 \<longrightarrow> lb (vars m' x) =
          Some (case lb (vars m x) of Some l \<Rightarrow> max l ((L - const) / coef) | None \<Rightarrow> (L - const) / coef)) \<and>
       (coef < 0 \<longrightarrow> ub (vars m' x) =
          Some (case ub (vars m x) of Some u \<Rightarrow> min u ((L - const) / coef) | None \<Rightarrow> (L - const) / coef)))"
proof -
  let ?c = "constrs m ! i"
  let ?d = "(vars m x)\<lparr>lb := meet_lb (implied_lb ?c const coef) (lb (vars m x)),
                       ub := meet_ub (implied_ub ?c const coef) (ub (vars m x))\<rparr>"
  have d: "derive_bounds isclose ?c const coef (vars m x) = Inr ?d"
    using assms(5,6) by (simp add: derive_bounds_nonzero)
  have p: "process_constr gsr isclose i m =
      Inr (m\<lparr>vars := (vars m)(x := repair_value ?d),
             constrs := (constrs m)[i := ?c\<lparr>active := False\<rparr>]\<rparr>)"
    using process_constr_single[where gsr=gsr and m=m and i=i and isclose=isclose, OF assms(1,2,3)]
      d assms(4) by simp
  show ?thesis
    unfolding p
    by (auto simp: meet_lb_def meet_ub_def implied_lb_def implied_ub_def tighten_lb_def tighten_ub_def)
qed

text \<open>Scenario 1: \<open>2 x + 1 \<le> 5\<close> on a variable without bounds gives the upper bound \<open>2\<close>.\<close>

theorem bound_derivation_witness:
  "\<exists>m'. process_constr id (isclose_abs epsilon) 0 scenario1 = Inr m' \<and> ub (vars m' 0) = Some 2"
proof -
  have h: "is_linear (id (body (constrs scenario1 ! 0)))"
    "linear_vars (id (body (constrs scenario1 ! 0))) = [0]"
    "linear_coefs (id (body (constrs scenario1 ! 0))) = [2]"
    "repn_constant (id (body (constrs scenario1 ! 0))) = 1"
    "\<not> isclose_abs epsilon 2 0" "(2::rat) \<noteq> 0"
    by (simp_all add: scenario1_def linear_body_def isclose_abs_def epsilon_def)
  have u: "upper (constrs scenario1 ! 0) = Some 5" "ub (vars scenario1 0) = None"
    by (simp_all add: scenario1_def free_var_def)
  from bound_derivation[where gsr=id and isclose="isclose_abs epsilon" and m=scenario1
      and i=0 and x=0 and coef=2 and const=1, OF h] obtain m' where
    "process_constr id (isclose_abs epsilon) 0 scenario1 = Inr m'"
    "\<forall>U. upper (constrs scenario1 ! 0) = Some U \<longrightarrow>
       ((2::rat) > 0 \<longrightarrow> ub (vars m' 0) =
          Some (case ub (vars scenario1 0) of Some u \<Rightarrow> min u ((U - 1) / 2) | None \<Rightarrow> (U - 1) / 2))"
    by blast
  with u show ?thesis by simp
qed

text \<open>
  C2. The pass returns, and for every variable the lower bound after the pass is no
  looser than the lower bound before and the upper bound after the pass is no looser
  than the upper bound before: a bound that was set stays set and is never replaced by
  a weaker one.
\<close>

theorem monotonic_tightening:
  assumes "zero_close isclose" and "wf_model gsr m"
  shows "\<exists>m'. apply_to gsr isclose m = Inr m' \<and>
    (\<forall>v. lb_no_looser (lb (vars m v)) (lb (vars m' v)) \<and>
         ub_no_looser (ub (vars m v)) (ub (vars m' v)))"
  using apply_to_fold[OF assms] fold_no_looser[of m _ gsr isclose "[0..<length (constrs m)]"]
  by blast

text \<open>Scenario 3: the variable has the upper bound \<open>1\<close> and the constraint implies \<open>2\<close>.\<close>

theorem monotonic_tightening_witness:
  "zero_close (isclose_abs epsilon) \<and> wf_model id scenario3 \<and>
   (\<exists>m'. apply_to id (isclose_abs epsilon) scenario3 = Inr m' \<and>
     (\<forall>v. lb_no_looser (lb (vars scenario3 v)) (lb (vars m' v)) \<and>
          ub_no_looser (ub (vars scenario3 v)) (ub (vars m' v))))"
proof -
  have h: "zero_close (isclose_abs epsilon)" "wf_model id scenario3"
    by (simp_all add: zero_close_def isclose_abs_def epsilon_def wf_model_def wf_constr_def
        scenario3_def linear_body_def)
  from monotonic_tightening[OF h] h show ?thesis by simp
qed

text \<open>
  C3. Every constraint that is active before the pass and whose body is linear in
  exactly one variable is inactive after the pass. Nothing is assumed about its
  coefficient, so this holds as well when the coefficient is degenerate and no bound
  is derived.
\<close>

theorem single_variable_linear_deactivated:
  assumes "zero_close isclose" and "wf_model gsr m"
    and "i < length (constrs m)"
    and "active (constrs m ! i)"
    and "is_linear (gsr (body (constrs m ! i)))"
    and "length (linear_vars (gsr (body (constrs m ! i)))) = 1"
  shows "\<exists>m'. apply_to gsr isclose m = Inr m' \<and> length (constrs m') = length (constrs m) \<and>
           \<not> active (constrs m' ! i)"
proof -
  let ?m' = "fold (pstep gsr isclose) [0..<length (constrs m)] m"
  have "candidate gsr (constrs m ! i)" using assms(5,6) by (simp add: candidate_def)
  then have "\<not> active (constrs ?m' ! i)"
    using assms(3) by (simp add: constrs_pass deact_def)
  then show ?thesis using apply_to_fold[OF assms(1,2)] by simp
qed

text \<open>Scenario 4: \<open>0 x + 5 \<le> 10\<close> is deactivated.\<close>

theorem single_variable_linear_deactivated_witness:
  "zero_close (isclose_abs epsilon) \<and> wf_model id scenario4 \<and> 0 < length (constrs scenario4) \<and>
   active (constrs scenario4 ! 0) \<and> is_linear (id (body (constrs scenario4 ! 0))) \<and>
   length (linear_vars (id (body (constrs scenario4 ! 0)))) = 1 \<and>
   (\<exists>m'. apply_to id (isclose_abs epsilon) scenario4 = Inr m' \<and>
      length (constrs m') = length (constrs scenario4) \<and> \<not> active (constrs m' ! 0))"
proof -
  have h: "zero_close (isclose_abs epsilon)" "wf_model id scenario4"
    "0 < length (constrs scenario4)" "active (constrs scenario4 ! 0)"
    "is_linear (id (body (constrs scenario4 ! 0)))"
    "length (linear_vars (id (body (constrs scenario4 ! 0)))) = 1"
    by (simp_all add: zero_close_def isclose_abs_def epsilon_def wf_model_def wf_constr_def
        scenario4_def linear_body_def)
  from single_variable_linear_deactivated[where gsr=id and isclose="isclose_abs epsilon", OF h] h
  show ?thesis by simp
qed

text \<open>
  C4, with the closeness test of the spec. For a single-variable linear constraint
  whose coefficient has an absolute value below the tolerance \<open>eps\<close>, the derivation
  step returns the variable as it was, without a division, whatever the constraint, the
  constant and the variable are; the loop body on that constraint leaves the bounds
  of every variable as they were and deactivates the constraint; and the pass never
  ends in a division by zero.
\<close>

theorem degenerate_coefficient_skipped:
  assumes "0 < eps"
    and "i < length (constrs m)"
    and "is_linear (gsr (body (constrs m ! i)))"
    and "linear_vars (gsr (body (constrs m ! i))) = [x]"
    and "linear_coefs (gsr (body (constrs m ! i))) = [coef]"
    and "\<bar>coef\<bar> < eps"
  shows "derive_bounds (isclose_abs eps) c const coef var = Inr var \<and>
    apply_to gsr (isclose_abs eps) m \<noteq> Inl ZeroDivisionError \<and>
    (\<exists>m'. process_constr gsr (isclose_abs eps) i m = Inr m' \<and>
       (\<forall>v. lb (vars m' v) = lb (vars m v) \<and> ub (vars m' v) = ub (vars m v)) \<and>
       \<not> active (constrs m' ! i))"
proof -
  have close: "isclose_abs eps coef 0" using assms(6) by (simp add: isclose_abs_def)
  have d: "derive_bounds (isclose_abs eps) c' const' coef var' = Inr var'" for c' :: "'b ConstraintData" and const' var'
    using close by (simp add: derive_bounds_close)
  have d': "derive_bounds (isclose_abs eps) c' const' coef var' = Inr var'" for c' :: "'a ConstraintData" and const' var'
    using close by (simp add: derive_bounds_close)
  have p: "process_constr gsr (isclose_abs eps) i m =
      Inr (m\<lparr>vars := (vars m)(x := repair_value (vars m x)),
             constrs := (constrs m)[i := (constrs m ! i)\<lparr>active := False\<rparr>]\<rparr>)"
    using process_constr_single[where gsr=gsr and m=m and i=i and isclose="isclose_abs eps",
        OF assms(3,4,5) d'] .
  have z: "apply_to gsr (isclose_abs eps) m \<noteq> Inl ZeroDivisionError"
    unfolding apply_to_def using zero_close_abs[OF assms(1)] by (rule visit_no_zdiv)
  show ?thesis using d z assms(2) unfolding p by simp
qed

text \<open>A coefficient of \<open>1e-9\<close> with the tolerance \<open>1e-8\<close>: no bound, constraint inactive.\<close>

theorem degenerate_coefficient_skipped_witness:
  "(0::rat) < epsilon \<and> \<bar>1 / 1000000000\<bar> < epsilon \<and>
   (\<exists>m'. process_constr id (isclose_abs epsilon) 0
        \<lparr>vars = (\<lambda>_. free_var),
         constrs = [\<lparr>body = linear_body 0 (1 / 1000000000) 5, lower = None, upper = Some 10,
                     active = True\<rparr>]\<rparr> = Inr m' \<and>
      ub (vars m' 0) = None \<and> \<not> active (constrs m' ! 0))"
proof -
  let ?m = "\<lparr>vars = (\<lambda>_. free_var),
         constrs = [\<lparr>body = linear_body 0 (1 / 1000000000) 5, lower = None, upper = Some 10,
                     active = True\<rparr>]\<rparr>"
  have h: "(0::rat) < epsilon" "0 < length (constrs ?m)"
    "is_linear (id (body (constrs ?m ! 0)))"
    "linear_vars (id (body (constrs ?m ! 0))) = [0]"
    "linear_coefs (id (body (constrs ?m ! 0))) = [1 / 1000000000]"
    "\<bar>1 / 1000000000\<bar> < epsilon"
    by (simp_all add: epsilon_def linear_body_def)
  from degenerate_coefficient_skipped[where gsr=id and m="?m" and i=0 and x=0, OF h]
  obtain m' where "process_constr id (isclose_abs epsilon) 0 ?m = Inr m'"
    "\<forall>v. lb (vars m' v) = lb (vars ?m v) \<and> ub (vars m' v) = ub (vars ?m v)"
    "\<not> active (constrs m' ! 0)"
    by blast
  then show ?thesis using h(1,6) by (auto simp: free_var_def)
qed

text \<open>
  C5. A constraint whose body is not linear, or whose linear form has two or more
  variables, is left as it is: the loop body on it returns the model unchanged, in
  whatever state the model is, so no bound and no value of a variable changes on its
  account; and after the pass the constraint is the same as before, with the same
  body, the same bounds and the same active flag.
\<close>

theorem non_candidates_untouched:
  assumes "zero_close isclose" and "wf_model gsr m"
    and "i < length (constrs m)"
    and "\<not> is_linear (gsr (body (constrs m ! i))) \<or> 2 \<le> length (linear_vars (gsr (body (constrs m ! i))))"
  shows "process_constr gsr isclose i m = Inr m \<and>
         (\<exists>m'. apply_to gsr isclose m = Inr m' \<and> constrs m' ! i = constrs m ! i)"
proof -
  let ?m' = "fold (pstep gsr isclose) [0..<length (constrs m)] m"
  have nc: "\<not> candidate gsr (constrs m ! i)" using assms(4) by (auto simp: candidate_def)
  then have "constrs ?m' ! i = constrs m ! i"
    using assms(3) by (simp add: constrs_pass deact_def)
  then show ?thesis using apply_to_fold[OF assms(1,2)] nc by (simp add: process_constr_skip)
qed

text \<open>Scenario 6: \<open>x + y \<le> 4\<close>.\<close>

theorem non_candidates_untouched_witness:
  "zero_close (isclose_abs epsilon) \<and> wf_model id scenario6 \<and> 0 < length (constrs scenario6) \<and>
   2 \<le> length (linear_vars (id (body (constrs scenario6 ! 0)))) \<and>
   process_constr id (isclose_abs epsilon) 0 scenario6 = Inr scenario6 \<and>
   (\<exists>m'. apply_to id (isclose_abs epsilon) scenario6 = Inr m' \<and>
      constrs m' ! 0 = constrs scenario6 ! 0)"
proof -
  have h: "zero_close (isclose_abs epsilon)" "wf_model id scenario6"
    "0 < length (constrs scenario6)"
    by (simp_all add: zero_close_def isclose_abs_def epsilon_def wf_model_def wf_constr_def
        scenario6_def)
  have g: "2 \<le> length (linear_vars (id (body (constrs scenario6 ! 0))))"
    by (simp add: scenario6_def)
  then have "\<not> is_linear (id (body (constrs scenario6 ! 0)))
      \<or> 2 \<le> length (linear_vars (id (body (constrs scenario6 ! 0))))" ..
  from non_candidates_untouched[where gsr=id and isclose="isclose_abs epsilon", OF h this] h g
  show ?thesis by simp
qed

text \<open>
  C6 does not hold for every variable. In \<open>contradictory\<close> the pass ends with variable
  \<open>0\<close> at value \<open>1\<close> below its lower bound \<open>2\<close> (the derived bounds cross, and the upper
  bound is repaired last), and with variable \<open>1\<close>, which no constraint mentions, at its
  old value \<open>-1\<close> below its lower bound \<open>0\<close>.
\<close>

theorem value_feasibility_counterexample:
  "\<not> isl (apply_to id (isclose_abs epsilon) contradictory) \<and>
   lb (vars (projr (apply_to id (isclose_abs epsilon) contradictory)) 0) = Some 2 \<and>
   var_value (vars (projr (apply_to id (isclose_abs epsilon) contradictory)) 0) = Some 1 \<and>
   lb (vars (projr (apply_to id (isclose_abs epsilon) contradictory)) 1) = Some 0 \<and>
   var_value (vars (projr (apply_to id (isclose_abs epsilon) contradictory)) 1) = Some (- 1)"
  by (simp add: eval_defs contradictory_def)

text \<open>
  C6, amended. The pass returns. Every variable that is the variable of an active
  single-variable linear constraint ends with its value at most its upper bound, when
  both are set, and with its value at least its lower bound, when both are set and the
  lower bound does not lie above the upper bound. Every other variable is unchanged.
\<close>

theorem value_feasibility_of_processed:
  assumes "zero_close isclose" and "wf_model gsr m"
  shows "\<exists>m'. apply_to gsr isclose m = Inr m' \<and>
    (\<forall>v. if (\<exists>i<length (constrs m). active (constrs m ! i) \<and>
                 is_linear (gsr (body (constrs m ! i))) \<and>
                 linear_vars (gsr (body (constrs m ! i))) = [v])
         then (\<forall>x u. var_value (vars m' v) = Some x \<and> ub (vars m' v) = Some u \<longrightarrow> x \<le> u) \<and>
              (\<forall>x l. var_value (vars m' v) = Some x \<and> lb (vars m' v) = Some l \<and>
                     (ub (vars m' v) = None \<or> (\<exists>u. ub (vars m' v) = Some u \<and> l \<le> u))
                     \<longrightarrow> l \<le> x)
         else vars m' v = vars m v)"
proof -
  let ?is = "[0..<length (constrs m)]"
  let ?m' = "fold (pstep gsr isclose) ?is m"
  have "if (\<exists>i<length (constrs m). active (constrs m ! i) \<and>
                 is_linear (gsr (body (constrs m ! i))) \<and>
                 linear_vars (gsr (body (constrs m ! i))) = [v])
         then (\<forall>x u. var_value (vars ?m' v) = Some x \<and> ub (vars ?m' v) = Some u \<longrightarrow> x \<le> u) \<and>
              (\<forall>x l. var_value (vars ?m' v) = Some x \<and> lb (vars ?m' v) = Some l \<and>
                     (ub (vars ?m' v) = None \<or> (\<exists>u. ub (vars ?m' v) = Some u \<and> l \<le> u))
                     \<longrightarrow> l \<le> x)
         else vars ?m' v = vars m v" (is "if ?T then ?F else ?U") for v
  proof (cases "\<exists>i\<in>set ?is. processed gsr (constrs m ! i) \<and> target gsr (constrs m ! i) = v")
    case True
    then have w: "within_bounds (vars ?m' v)" by (rule fold_touched) simp
    from True have T: ?T by (auto simp: single_var_processed)
    have ?F using within_boundsD[OF w] by blast
    with T show ?thesis by (simp only: if_True)
  next
    case False
    then have "\<forall>i\<in>set ?is. \<not> (processed gsr (constrs m ! i) \<and> target gsr (constrs m ! i) = v)"
      by blast
    then have u: ?U by (rule fold_untouched) simp
    from False have "\<not> ?T" by (auto simp: single_var_processed)
    with u show ?thesis by (simp only: if_False)
  qed
  then show ?thesis using apply_to_fold[OF assms] by blast
qed

text \<open>Scenario 5: the value \<open>3\<close> is moved onto the new upper bound \<open>2\<close>.\<close>

theorem value_feasibility_of_processed_witness:
  "zero_close (isclose_abs epsilon) \<and> wf_model id scenario5 \<and>
   (\<exists>m' x u. apply_to id (isclose_abs epsilon) scenario5 = Inr m' \<and>
      active (constrs scenario5 ! 0) \<and> linear_vars (id (body (constrs scenario5 ! 0))) = [0] \<and>
      var_value (vars scenario5 0) = Some 3 \<and>
      var_value (vars m' 0) = Some x \<and> ub (vars m' 0) = Some u \<and> x \<le> u)"
proof -
  have h: "zero_close (isclose_abs epsilon)" "wf_model id scenario5"
    by (simp_all add: zero_close_def isclose_abs_def epsilon_def wf_model_def wf_constr_def
        scenario5_def linear_body_def)
  have t: "\<exists>i<length (constrs scenario5). active (constrs scenario5 ! i) \<and>
                 is_linear (id (body (constrs scenario5 ! i))) \<and>
                 linear_vars (id (body (constrs scenario5 ! i))) = [0]"
    by (simp add: scenario5_def linear_body_def)
  from value_feasibility_of_processed[OF h] obtain m' where
    m': "apply_to id (isclose_abs epsilon) scenario5 = Inr m'"
    and all: "\<forall>v. if (\<exists>i<length (constrs scenario5). active (constrs scenario5 ! i) \<and>
                 is_linear (id (body (constrs scenario5 ! i))) \<and>
                 linear_vars (id (body (constrs scenario5 ! i))) = [v])
         then (\<forall>x u. var_value (vars m' v) = Some x \<and> ub (vars m' v) = Some u \<longrightarrow> x \<le> u) \<and>
              (\<forall>x l. var_value (vars m' v) = Some x \<and> lb (vars m' v) = Some l \<and>
                     (ub (vars m' v) = None \<or> (\<exists>u. ub (vars m' v) = Some u \<and> l \<le> u))
                     \<longrightarrow> l \<le> x)
         else vars m' v = vars scenario5 v"
    by blast
  from spec[OF all, of 0] t
  have le: "\<forall>x u. var_value (vars m' 0) = Some x \<and> ub (vars m' 0) = Some u \<longrightarrow> x \<le> u"
    by (simp only: if_True) blast
  from m' have v: "var_value (vars m' 0) = Some 2" "ub (vars m' 0) = Some 2"
    by (auto simp: scenario5_result)
  with le have "(2::rat) \<le> 2" by blast
  with v m' h show ?thesis by (simp add: scenario5_def linear_body_def)
qed

text \<open>
  C7, with \<open>clone\<close> as the spec describes it. The copy-producing entry point returns a
  store and the handle of the copy; every model of the old store, the original among
  them, is in the new store as it was; and the model at the handle of the copy is the
  model that the pass yields on the original, which is also what the in-place entry
  point puts at the handle of the original.
\<close>

theorem create_using_leaves_original:
  assumes "zero_close isclose" and "model < length store" and "wf_model gsr (store ! model)"
  shows "\<exists>store' m m'. create_using gsr isclose model store = Inr (store', m) \<and>
    take (length store) store' = store \<and> store' ! model = store ! model \<and>
    apply_to gsr isclose (store ! model) = Inr m' \<and> store' ! m = m' \<and>
    apply_to_at gsr isclose model store = Inr (store[model := m']) \<and>
    store[model := m'] ! model = m'"
proof -
  let ?m' = "fold (pstep gsr isclose) [0..<length (constrs (store ! model))] (store ! model)"
  have a: "apply_to gsr isclose (store ! model) = Inr ?m'"
    using assms(1,3) by (rule apply_to_fold)
  have c: "create_using gsr isclose model store = Inr (store @ [?m'], length store)"
    by (simp add: create_using_def clone_def apply_to_at_def a)
  show ?thesis unfolding c using a assms(2)
    by (simp add: apply_to_at_def nth_append)
qed

text \<open>A store that holds \<open>scenario1\<close>.\<close>

theorem create_using_leaves_original_witness:
  "zero_close (isclose_abs epsilon) \<and> 0 < length [scenario1] \<and> wf_model id ([scenario1] ! 0) \<and>
   (\<exists>store' m m'. create_using id (isclose_abs epsilon) 0 [scenario1] = Inr (store', m) \<and>
      take (length [scenario1]) store' = [scenario1] \<and> store' ! 0 = [scenario1] ! 0 \<and>
      apply_to id (isclose_abs epsilon) ([scenario1] ! 0) = Inr m' \<and> store' ! m = m' \<and>
      apply_to_at id (isclose_abs epsilon) 0 [scenario1] = Inr ([scenario1][0 := m']) \<and>
      [scenario1][0 := m'] ! 0 = m')"
proof -
  have h: "zero_close (isclose_abs epsilon)" "0 < length [scenario1]"
    "wf_model id ([scenario1] ! 0)"
    by (simp_all add: zero_close_def isclose_abs_def epsilon_def wf_model_def wf_constr_def
        scenario1_def linear_body_def)
  from create_using_leaves_original[where gsr=id and isclose="isclose_abs epsilon", OF h] h
  show ?thesis by blast
qed

text \<open>
  C8. The pass is idempotent: it returns a model, and on that model it returns the
  same model again, with the same bounds, values and active flags.
\<close>

theorem idempotence:
  assumes "zero_close isclose" and "wf_model gsr m"
  shows "\<exists>m'. apply_to gsr isclose m = Inr m' \<and> apply_to gsr isclose m' = Inr m'"
proof -
  let ?m' = "fold (pstep gsr isclose) [0..<length (constrs m)] m"
  have wf': "wf_model gsr ?m'" using assms(2) by (rule wf_model_fold)
  have "apply_to gsr isclose ?m' = Inr ?m'"
    using apply_to_fold[OF assms(1) wf'] pass_idem[of ?m' gsr isclose m] by simp
  then show ?thesis using apply_to_fold[OF assms] by simp
qed

text \<open>Scenario 1, twice.\<close>

theorem idempotence_witness:
  "zero_close (isclose_abs epsilon) \<and> wf_model id scenario1 \<and>
   (\<exists>m'. apply_to id (isclose_abs epsilon) scenario1 = Inr m' \<and>
      apply_to id (isclose_abs epsilon) m' = Inr m')"
proof -
  have h: "zero_close (isclose_abs epsilon)" "wf_model id scenario1"
    by (simp_all add: zero_close_def isclose_abs_def epsilon_def wf_model_def wf_constr_def
        scenario1_def linear_body_def)
  from idempotence[OF h] h show ?thesis by simp
qed

text \<open>
  C9. On two models with the same variables whose constraint sequences are
  permutations of each other, the pass returns on both, and every variable has the same
  lower bound and the same upper bound in the two results.
\<close>

theorem order_independence:
  assumes "zero_close isclose" and "wf_model gsr m1"
    and "mset (constrs m2) = mset (constrs m1)"
    and "vars m2 = vars m1"
  shows "\<exists>m1' m2'. apply_to gsr isclose m1 = Inr m1' \<and> apply_to gsr isclose m2 = Inr m2' \<and>
    (\<forall>v. lb (vars m2' v) = lb (vars m1' v) \<and> ub (vars m2' v) = ub (vars m1' v))"
proof -
  let ?m1' = "fold (pstep gsr isclose) [0..<length (constrs m1)] m1"
  let ?m2' = "fold (pstep gsr isclose) [0..<length (constrs m2)] m2"
  from assms(3) have "set (constrs m2) = set (constrs m1)" by (rule mset_eq_setD)
  with assms(2) have wf2: "wf_model gsr m2" by (simp add: wf_model_def list_all_iff)
  have "bounds_of m2 = bounds_of m1" using assms(4) by (simp add: bounds_of_def fun_eq_iff)
  with assms(3) have "bounds_of ?m2' = bounds_of ?m1'" by (rule bounds_of_pass_permuted)
  then have "\<forall>v. lb (vars ?m2' v) = lb (vars ?m1' v) \<and> ub (vars ?m2' v) = ub (vars ?m1' v)"
    by (auto simp: bounds_of_def fun_eq_iff)
  then show ?thesis using apply_to_fold[OF assms(1,2)] apply_to_fold[OF assms(1) wf2] by simp
qed

text \<open>\<open>x \<le> 3\<close> and \<open>2 x \<le> 4\<close> in both orders.\<close>

theorem order_independence_witness:
  "zero_close (isclose_abs epsilon) \<and>
   wf_model id \<lparr>vars = (\<lambda>_. free_var), constrs = two_bounds\<rparr> \<and>
   mset (rev two_bounds) = mset two_bounds \<and>
   (\<exists>m1' m2'. apply_to id (isclose_abs epsilon) \<lparr>vars = (\<lambda>_. free_var), constrs = two_bounds\<rparr> = Inr m1' \<and>
      apply_to id (isclose_abs epsilon) \<lparr>vars = (\<lambda>_. free_var), constrs = rev two_bounds\<rparr> = Inr m2' \<and>
      (\<forall>v. lb (vars m2' v) = lb (vars m1' v) \<and> ub (vars m2' v) = ub (vars m1' v)))"
proof -
  let ?m1 = "\<lparr>vars = (\<lambda>_. free_var), constrs = two_bounds\<rparr>"
  let ?m2 = "\<lparr>vars = (\<lambda>_. free_var), constrs = rev two_bounds\<rparr>"
  have h: "zero_close (isclose_abs epsilon)" "wf_model id ?m1"
    "mset (constrs ?m2) = mset (constrs ?m1)" "vars ?m2 = vars ?m1"
    by (simp_all add: zero_close_def isclose_abs_def epsilon_def wf_model_def wf_constr_def
        two_bounds_def linear_body_def)
  from order_independence[OF h] h show ?thesis by simp
qed

text \<open>
  C10 does not hold when the bounds of the variable cross. In \<open>crossed\<close> the
  coefficient is degenerate, the value \<open>0\<close> is below the lower bound \<open>2\<close>, and the loop
  body leaves the value at the upper bound \<open>1\<close>, not at the lower bound.
\<close>

theorem degenerate_repair_counterexample:
  "\<not> isl (process_constr id (isclose_abs epsilon) 0 crossed) \<and>
   isclose_abs epsilon 0 0 \<and> linear_coefs (id (body (constrs crossed ! 0))) = [0] \<and>
   var_value (vars crossed 0) = Some 0 \<and> lb (vars crossed 0) = Some 2 \<and>
   var_value (vars (projr (process_constr id (isclose_abs epsilon) 0 crossed)) 0) = Some 1"
  by (simp add: eval_defs crossed_def)

text \<open>
  C10, amended. On a single-variable linear constraint with a degenerate coefficient
  the loop body returns, changes no bound of the variable, and still repairs its value:
  a value below the lower bound is reset to the lower bound when there is no upper
  bound or the lower bound is at most the upper bound, and to the upper bound when the
  upper bound lies below the lower bound; a value above the upper bound is reset to
  the upper bound.
\<close>

theorem degenerate_value_repair:
  assumes "is_linear (gsr (body (constrs m ! i)))"
    and "linear_vars (gsr (body (constrs m ! i))) = [x]"
    and "linear_coefs (gsr (body (constrs m ! i))) = [coef]"
    and "isclose coef 0"
  shows "\<exists>m'. process_constr gsr isclose i m = Inr m' \<and>
    lb (vars m' x) = lb (vars m x) \<and> ub (vars m' x) = ub (vars m x) \<and>
    (\<forall>a l. var_value (vars m x) = Some a \<and> lb (vars m x) = Some l \<and> a < l \<and>
           (ub (vars m x) = None \<or> (\<exists>u. ub (vars m x) = Some u \<and> l \<le> u))
           \<longrightarrow> var_value (vars m' x) = Some l) \<and>
    (\<forall>a l u. var_value (vars m x) = Some a \<and> lb (vars m x) = Some l \<and> a < l \<and>
           ub (vars m x) = Some u \<and> u < l
           \<longrightarrow> var_value (vars m' x) = Some u) \<and>
    (\<forall>a u. var_value (vars m x) = Some a \<and> ub (vars m x) = Some u \<and> u < a
           \<longrightarrow> var_value (vars m' x) = Some u)"
proof -
  have d: "derive_bounds isclose (constrs m ! i) (repn_constant (gsr (body (constrs m ! i))))
             coef (vars m x) = Inr (vars m x)"
    using assms(4) by (simp add: derive_bounds_close)
  have p: "process_constr gsr isclose i m =
      Inr (m\<lparr>vars := (vars m)(x := repair_value (vars m x)),
             constrs := (constrs m)[i := (constrs m ! i)\<lparr>active := False\<rparr>]\<rparr>)"
    using process_constr_single[where gsr=gsr and m=m and i=i and isclose=isclose,
        OF assms(1,2,3) d] .
  show ?thesis unfolding p
    by (auto simp: repair_value_def repair_lb_def repair_ub_def has_lb_def has_ub_def set_value_def
        split: option.splits)
qed

text \<open>The variable of \<open>crossed\<close> ends at its upper bound.\<close>

theorem degenerate_value_repair_witness:
  "is_linear (id (body (constrs crossed ! 0))) \<and> isclose_abs epsilon 0 0 \<and>
   (\<exists>m'. process_constr id (isclose_abs epsilon) 0 crossed = Inr m' \<and>
      var_value (vars crossed 0) = Some 0 \<and> lb (vars crossed 0) = Some 2 \<and>
      ub (vars crossed 0) = Some 1 \<and> var_value (vars m' 0) = Some 1)"
proof -
  have h: "is_linear (id (body (constrs crossed ! 0)))"
    "linear_vars (id (body (constrs crossed ! 0))) = [0]"
    "linear_coefs (id (body (constrs crossed ! 0))) = [0]"
    "isclose_abs epsilon 0 0"
    by (simp_all add: crossed_def linear_body_def isclose_abs_def epsilon_def)
  have v: "var_value (vars crossed 0) = Some 0" "lb (vars crossed 0) = Some 2"
    "ub (vars crossed 0) = Some 1"
    by (simp_all add: crossed_def)
  from degenerate_value_repair[where gsr=id and isclose="isclose_abs epsilon" and m=crossed
      and i=0 and x=0 and coef=0, OF h]
  obtain m' where m': "process_constr id (isclose_abs epsilon) 0 crossed = Inr m'"
    and "\<forall>a l u. var_value (vars crossed 0) = Some a \<and> lb (vars crossed 0) = Some l \<and> a < l \<and>
           ub (vars crossed 0) = Some u \<and> u < l
           \<longrightarrow> var_value (vars m' 0) = Some u"
    by blast
  with v have "var_value (vars m' 0) = Some 1" by simp
  with m' h v show ?thesis by blast
qed

end
